theory Spec2Isabelle
  imports Complex_Main
begin

section \<open>Filter Planner\<close>

text \<open>
  The planner is the pure part of \<open>processAudioWithFFmpeg\<close> (src/server.js, lines 299-319;
  the same text is in the second source file): it fills the array \<open>audioFilters\<close> with
  filter strings. JavaScript numbers are modelled as \<^typ>\<open>real\<close>: every finite double is a
  real, the constants \<open>2\<close>, \<open>0.5\<close>, \<open>1\<close>, \<open>12\<close> are exact, and halving a double above 2 or
  doubling a positive double below 0.5 is exact in binary floating point, so the two loops
  compute the same values on doubles as on reals. \<open>NaN\<close> and the infinities are not values of
  the model.

  A filter string is modelled by its template and its number:
  \<^item> \<open>Asetrate_aresample b r a\<close> is the string \<open>asetrate=b*${r},aresample=a\<close>, which the
    source writes with \<open>b = a = 44100\<close>: play the samples at \<open>b * r\<close> Hz, then resample
    to \<open>a\<close> Hz;
  \<^item> \<open>Atempo r\<close> is the string \<open>atempo=${r}\<close>; the literals \<open>'atempo=2'\<close> and
    \<open>'atempo=0.5'\<close> of the loops are \<open>Atempo 2\<close> and \<open>Atempo 0.5\<close>.
\<close>

datatype audio_filter = Asetrate_aresample nat real nat | Atempo real

text \<open>\<open>while (speed > 2) { audioFilters.push('atempo=2'); speed /= 2; }\<close>\<close>

function halve_loop :: "real \<Rightarrow> audio_filter list \<Rightarrow> real \<times> audio_filter list" where
  "halve_loop speed fs =
     (if speed > 2 then halve_loop (speed / 2) (fs @ [Atempo 2]) else (speed, fs))"
  by pat_completeness auto
termination
proof (relation "measure (\<lambda>(speed, fs). nat \<lfloor>speed\<rfloor>)")
  show "wf (measure (\<lambda>(speed, fs). nat \<lfloor>speed\<rfloor>))" by simp
next
  fix speed :: real and fs :: "audio_filter list"
  assume gt: "2 < speed"
  have "real_of_int \<lfloor>speed / 2\<rfloor> \<le> speed / 2" by (rule of_int_floor_le)
  also have "\<dots> \<le> speed - 1" using gt by simp
  also have "\<dots> < real_of_int \<lfloor>speed\<rfloor>" by linarith
  finally have lt: "\<lfloor>speed / 2\<rfloor> < \<lfloor>speed\<rfloor>" by simp
  have "0 < \<lfloor>speed\<rfloor>" using gt by linarith
  with lt show "((speed / 2, fs @ [Atempo 2]), (speed, fs)) \<in> measure (\<lambda>(speed, fs). nat \<lfloor>speed\<rfloor>)"
    by simp
qed

text \<open>
  \<open>while (speed < 0.5) { audioFilters.push('atempo=0.5'); speed /= 0.5; }\<close>
  This loop does not end when \<open>speed\<close> is zero or negative (twice zero is zero, and a
  negative number only gets smaller), so it is a partial function: \<open>None\<close> is "never returns".
\<close>

partial_function (option) double_loop ::
  "real \<Rightarrow> audio_filter list \<Rightarrow> (real \<times> audio_filter list) option" where
  "double_loop speed fs =
     (if speed < 0.5 then double_loop (speed / 0.5) (fs @ [Atempo 0.5]) else Some (speed, fs))"

declare double_loop.simps [code]

text \<open>The block \<open>if (playbackSpeed !== 1) { ... }\<close>, run on the filters pushed so far.\<close>

definition tempo_steps :: "real \<Rightarrow> audio_filter list \<Rightarrow> audio_filter list option" where
  "tempo_steps playbackSpeed fs =
     (if playbackSpeed \<noteq> 1 then
        (case halve_loop playbackSpeed fs of
           (speed, fs1) \<Rightarrow>
             (case double_loop speed fs1 of
                None \<Rightarrow> None
              | Some (speed', fs2) \<Rightarrow>
                  Some (if speed' \<noteq> 1 then fs2 @ [Atempo speed'] else fs2)))
      else Some fs)"

text \<open>
  The whole planner: the pitch filter (\<open>Math.pow(2, pitchShift / 12)\<close>) is pushed first,
  then the tempo steps.
\<close>

definition audioFilters :: "real \<Rightarrow> real \<Rightarrow> audio_filter list option" where
  "audioFilters pitchShift playbackSpeed =
     tempo_steps playbackSpeed
       (if pitchShift \<noteq> 0 then [Asetrate_aresample 44100 (2 powr (pitchShift / 12)) 44100] else [])"

text \<open>The tempo factors of a chain, in order, and what is not a tempo step.\<close>

fun atempo_factors :: "audio_filter list \<Rightarrow> real list" where
  "atempo_factors [] = []"
| "atempo_factors (Atempo r # fs) = r # atempo_factors fs"
| "atempo_factors (Asetrate_aresample b r a # fs) = atempo_factors fs"

fun is_atempo :: "audio_filter \<Rightarrow> bool" where
  "is_atempo (Atempo r) = True"
| "is_atempo (Asetrate_aresample b r a) = False"

subsection \<open>The decomposition as the specification words it\<close>

text \<open>
  Section 4.1 of the specification: "while ratio > 2, append a x2 step and divide ratio by 2;
  while ratio < 0.5, append a x0.5 step and divide ratio by 0.5; once ratio is in [0.5, 2.0]
  and not 1, append one final step at that exact ratio." Each sentence is one relation; a
  step \<open>xr\<close> is written \<open>Atempo r\<close>.
\<close>

inductive spec_halving :: "real \<Rightarrow> audio_filter list \<Rightarrow> real \<Rightarrow> audio_filter list \<Rightarrow> bool" where
  halving_done: "\<not> ratio > 2 \<Longrightarrow> spec_halving ratio chain ratio chain"
| halving_step: "ratio > 2 \<Longrightarrow> spec_halving (ratio / 2) (chain @ [Atempo 2]) ratio' chain'
     \<Longrightarrow> spec_halving ratio chain ratio' chain'"

inductive spec_doubling :: "real \<Rightarrow> audio_filter list \<Rightarrow> real \<Rightarrow> audio_filter list \<Rightarrow> bool" where
  doubling_done: "\<not> ratio < 0.5 \<Longrightarrow> spec_doubling ratio chain ratio chain"
| doubling_step: "ratio < 0.5 \<Longrightarrow> spec_doubling (ratio / 0.5) (chain @ [Atempo 0.5]) ratio' chain'
     \<Longrightarrow> spec_doubling ratio chain ratio' chain'"

inductive spec_tempo_chain :: "real \<Rightarrow> audio_filter list \<Rightarrow> bool" where
  spec_final: "spec_halving speed [] ratio1 chain1 \<Longrightarrow> spec_doubling ratio1 chain1 ratio2 chain2
     \<Longrightarrow> 0.5 \<le> ratio2 \<Longrightarrow> ratio2 \<le> 2 \<Longrightarrow> ratio2 \<noteq> 1
     \<Longrightarrow> spec_tempo_chain speed (chain2 @ [Atempo ratio2])"

code_pred spec_halving .

code_pred spec_doubling .

code_pred spec_tempo_chain .


section \<open>Temp-File Reaper\<close>

text \<open>
  \<open>cleanupTempFiles\<close> (src/server.js, lines 83-107). The temp directory is the list of its
  entries in \<open>readdirSync\<close> order. An entry carries what the sweep can observe of it:
  its modification time in milliseconds (\<open>None\<close> when \<open>statSync\<close> throws on it) and whether
  \<open>unlinkSync\<close> succeeds on it (it throws on a subdirectory, for one). A throw inside the
  \<open>forEach\<close> body is caught there and the sweep goes on with the next name.
  The directory itself is \<open>None\<close> when \<open>fs.existsSync(tempDir)\<close> is false.
  (The second source file has the same function with a threshold of 1800000 ms.)
\<close>

record entry =
  mtime :: "int option"
  unlink_ok :: bool

type_synonym tempdir = "(string \<times> entry) list"

definition readdirSync :: "tempdir \<Rightarrow> string list" where
  "readdirSync d = map fst d"

definition statSync :: "tempdir \<Rightarrow> string \<Rightarrow> int option" where
  "statSync d file = (case map_of d file of None \<Rightarrow> None | Some e \<Rightarrow> mtime e)"

definition unlinkSync :: "tempdir \<Rightarrow> string \<Rightarrow> tempdir option" where
  "unlinkSync d file =
     (case map_of d file of
        None \<Rightarrow> None
      | Some e \<Rightarrow> if unlink_ok e then Some (filter (\<lambda>p. fst p \<noteq> file) d) else None)"

text \<open>The body of \<open>files.forEach(file => { try { ... } catch (err) { ... } })\<close>.\<close>

definition sweep_file :: "int \<Rightarrow> string \<Rightarrow> tempdir \<Rightarrow> tempdir" where
  "sweep_file now file d =
     (case statSync d file of
        None \<Rightarrow> d
      | Some t \<Rightarrow>
          (let fileAge = now - t in
           if fileAge > 900000 then (case unlinkSync d file of None \<Rightarrow> d | Some d' \<Rightarrow> d')
           else d))"

definition cleanupTempFiles :: "int \<Rightarrow> tempdir option \<Rightarrow> tempdir option" where
  "cleanupTempFiles now dir =
     (case dir of
        None \<Rightarrow> None
      | Some d \<Rightarrow> Some (fold (sweep_file now) (readdirSync d) d))"

text \<open>A name is doomed at a clock reading when the sweep at that reading unlinks it.\<close>

definition doomed :: "int \<Rightarrow> tempdir \<Rightarrow> string \<Rightarrow> bool" where
  "doomed now d file =
     (case map_of d file of
        None \<Rightarrow> False
      | Some e \<Rightarrow> (case mtime e of None \<Rightarrow> False | Some t \<Rightarrow> now - t > 900000 \<and> unlink_ok e))"

section \<open>Request validation\<close>

text \<open>
  \<open>/^[a-zA-Z0-9_-]{11}$/.test(videoId)\<close>: exactly eleven characters, each a letter, a digit,
  an underscore or a hyphen (without the \<open>m\<close> flag, \<open>$\<close> matches at the end of the input only).
\<close>

definition id_alphabet :: string where
  "id_alphabet = ''abcdefghijklmnopqrstuvwxyzABCDEFGHIJKLMNOPQRSTUVWXYZ0123456789_-''"

definition regex_test :: "string \<Rightarrow> bool" where
  "regex_test s = (length s = 11 \<and> list_all (\<lambda>c. c \<in> set id_alphabet) s)"

text \<open>
  The fields \<open>pitchShift\<close> and \<open>playbackSpeed\<close> of a JSON body are JavaScript values; the model
  has the numbers and the strings. \<open>v < c\<close> and \<open>v > c\<close> against a number convert \<open>v\<close> with
  \<open>ToNumber\<close> and are false when the result is \<open>NaN\<close>, written \<open>None\<close>. The conversion of a
  string is the runtime's \<open>StringToNumber\<close>, which is not code of the repository: the handler
  takes it as the parameter \<open>str2num\<close>.
\<close>

datatype jsval = JNum real | JStr string

fun ToNumber :: "(string \<Rightarrow> real option) \<Rightarrow> jsval \<Rightarrow> real option" where
  "ToNumber str2num (JNum x) = Some x"
| "ToNumber str2num (JStr s) = str2num s"

definition js_lt :: "(string \<Rightarrow> real option) \<Rightarrow> jsval \<Rightarrow> real \<Rightarrow> bool" where
  "js_lt str2num v c = (case ToNumber str2num v of None \<Rightarrow> False | Some x \<Rightarrow> x < c)"

definition js_gt :: "(string \<Rightarrow> real option) \<Rightarrow> jsval \<Rightarrow> real \<Rightarrow> bool" where
  "js_gt str2num v c = (case ToNumber str2num v of None \<Rightarrow> False | Some x \<Rightarrow> x > c)"

text \<open>
  A conversion to run the handler with: the empty string is 0, a string of decimal digits is
  its value, and a string with any other character is \<open>NaN\<close>. (The runtime also reads signs,
  fractions, exponents, radix prefixes and surrounding white space; no string used below has
  any.)
\<close>

definition digit_of :: "char \<Rightarrow> nat option" where
  "digit_of c = map_of (zip ''0123456789'' [0, 1, 2, 3, 4, 5, 6, 7, 8, 9]) c"

fun digits_value :: "nat \<Rightarrow> string \<Rightarrow> nat option" where
  "digits_value acc [] = Some acc"
| "digits_value acc (c # cs) =
     (case digit_of c of None \<Rightarrow> None | Some d \<Rightarrow> digits_value (10 * acc + d) cs)"

definition digits_to_number :: "string \<Rightarrow> real option" where
  "digits_to_number s = map_option real (digits_value 0 s)"

text \<open>\<open>message.includes(sub)\<close>\<close>

fun str_includes :: "string \<Rightarrow> string \<Rightarrow> bool" where
  "str_includes [] sub = (sub = [])"
| "str_includes (c # cs) sub = (take (length sub) (c # cs) = sub \<or> str_includes cs sub)"

section \<open>Responses and external calls\<close>

text \<open>
  What a handler does to the outside is recorded in order: a call of the remote metadata
  lookup (\<open>ytdl.getInfo\<close>), of the download (\<open>ytdl(...)\<close> piped to a file), of the transcoder
  (\<open>command.run()\<close>), and a response. A response is \<open>res.status(n).json({ error: msg })\<close>, the
  video-info JSON (status 200, with its \<open>lengthSeconds\<close>), or the audio stream of a file
  (status 200).
\<close>

datatype reply = ErrorJson nat string | InfoJson nat | AudioStream string

datatype event =
    CallGetInfo string
  | CallDownload string string
  | CallTranscode string string
  | Respond reply

fun status :: "reply \<Rightarrow> nat" where
  "status (ErrorJson n msg) = n"
| "status (InfoJson d) = 200"
| "status (AudioStream file) = 200"

fun is_call :: "event \<Rightarrow> bool" where
  "is_call (Respond r) = False"
| "is_call e = True"

fun is_response :: "event \<Rightarrow> bool" where
  "is_response (Respond r) = True"
| "is_response e = False"

definition videoUrl :: "string \<Rightarrow> string" where
  "videoUrl videoId = ''https://www.youtube.com/watch?v='' @ videoId"

section \<open>GET /api/video-info/:videoId\<close>

text \<open>
  src/server.js, lines 112-166. \<open>Promise.race([infoPromise, timeoutPromise])\<close> ends in one of
  three ways: the lookup resolves with the video details, it rejects with a message, or the
  15 second timer rejects first with \<open>Request timeout\<close>. Of the details the status depends on
  \<open>lengthSeconds\<close> only; \<open>parseInt(videoDetails.lengthSeconds || 0)\<close> is the number it holds,
  and 0 when it is missing.
\<close>

record videoDetails =
  lengthSeconds :: "nat option"

datatype getInfo_outcome = InfoResolved videoDetails | InfoRejected string | InfoTimeout

definition video_info_catch :: "string \<Rightarrow> reply" where
  "video_info_catch message =
     (if str_includes message ''Video unavailable'' then
        ErrorJson 404 ''Video not found or is private/restricted''
      else if str_includes message ''timeout'' then
        ErrorJson 408 ''Request timeout - please try again''
      else ErrorJson 500 ''Failed to fetch video information'')"

definition video_info :: "string \<Rightarrow> getInfo_outcome \<Rightarrow> event list" where
  "video_info videoId outcome =
     (if videoId = [] \<or> \<not> regex_test videoId then
        [Respond (ErrorJson 400 ''Invalid video ID format'')]
      else
        CallGetInfo (videoUrl videoId) #
        (case outcome of
           InfoResolved details \<Rightarrow>
             (let duration = (case lengthSeconds details of None \<Rightarrow> 0 | Some n \<Rightarrow> n) in
              if duration > 600 then
                [Respond (ErrorJson 400 ''Video too long. Please use videos under 10 minutes.'')]
              else [Respond (InfoJson duration)])
         | InfoRejected message \<Rightarrow> [Respond (video_info_catch message)]
         | InfoTimeout \<Rightarrow> [Respond (video_info_catch ''Request timeout'')]))"

section \<open>POST /api/process-audio\<close>

text \<open>
  src/server.js, lines 169-241. The request body has the three fields the handler
  destructures; a missing field is \<open>None\<close>. The model covers the bodies whose \<open>videoId\<close> is
  missing or a string.
\<close>

record body =
  body_videoId :: "string option"
  body_pitchShift :: "jsval option"
  body_playbackSpeed :: "jsval option"

text \<open>
  The state of one request on the server: the paths that exist on disk, the response's
  \<open>headersSent\<close> flag, and the external calls and responses so far, oldest first.
\<close>

record server =
  files :: "string set"
  headersSent :: bool
  events :: "event list"

definition new_request :: "string set \<Rightarrow> server" where
  "new_request disk = \<lparr>files = disk, headersSent = False, events = []\<rparr>"

text \<open>How many responses a state has recorded.\<close>

definition responses :: "server \<Rightarrow> nat" where
  "responses s = length (filter is_response (events s))"

definition respond :: "reply \<Rightarrow> server \<Rightarrow> server" where
  "respond r s = s\<lparr>headersSent := True, events := events s @ [Respond r]\<rparr>"

definition call :: "event \<Rightarrow> server \<Rightarrow> server" where
  "call e s = s\<lparr>events := events s @ [e]\<rparr>"

definition written :: "bool \<Rightarrow> string \<Rightarrow> server \<Rightarrow> server" where
  "written present file s = (if present then s\<lparr>files := insert file (files s)\<rparr> else s)"

text \<open>
  \<open>[inputFile, outputFile].forEach(file => { if (fs.existsSync(file)) fs.unlink(file, ...) })\<close>;
  the unlink of an existing file is taken to succeed.
\<close>

definition unlink_if_exists :: "string \<Rightarrow> server \<Rightarrow> server" where
  "unlink_if_exists file s = (if file \<in> files s then s\<lparr>files := files s - {file}\<rparr> else s)"

definition delete_pair :: "string \<Rightarrow> string \<Rightarrow> server \<Rightarrow> server" where
  "delete_pair inputFile outputFile s = unlink_if_exists outputFile (unlink_if_exists inputFile s)"

text \<open>The callback of \<open>requestTimeout\<close>, the 25 second timer.\<close>

definition requestTimeout_fires :: "server \<Rightarrow> server" where
  "requestTimeout_fires s =
     (if \<not> headersSent s then respond (ErrorJson 408 ''Processing timeout'') s else s)"

text \<open>The \<open>catch (error)\<close> block, on the error's message (\<open>clearTimeout\<close> is in \<open>pipeline\<close>).\<close>

definition catch_block :: "string \<Rightarrow> string \<Rightarrow> string \<Rightarrow> server \<Rightarrow> server" where
  "catch_block inputFile outputFile message s =
     (let s' = delete_pair inputFile outputFile s in
      if \<not> headersSent s' then
        (if str_includes message ''Video unavailable'' then
           respond (ErrorJson 404 ''Video not available'') s'
         else if str_includes message ''timeout'' then
           respond (ErrorJson 408 ''Processing timeout'') s'
         else respond (ErrorJson 500 ''Failed to process audio'') s')
      else s')"

text \<open>
  The two adapters settle their promise in one of the ways their code has: the result is
  \<open>None\<close> for \<open>resolve()\<close> and the message of the error for \<open>reject(new Error(...))\<close>.
  (Of \<open>processAudioWithFFmpeg\<close> this is the part after the filters are built; the filters
  are \<open>audioFilters\<close> above. After validation the two loops of the planner always end.)
\<close>

datatype download_outcome =
    Write_finish
  | Download_timer
  | Audio_stream_error string
  | Write_stream_error
  | Download_init_throw string

fun downloadYouTubeAudio :: "download_outcome \<Rightarrow> string option" where
  "downloadYouTubeAudio Write_finish = None"
| "downloadYouTubeAudio Download_timer = Some ''Download timeout''"
| "downloadYouTubeAudio (Audio_stream_error message) = Some (''Download failed: '' @ message)"
| "downloadYouTubeAudio Write_stream_error = Some ''File write failed''"
| "downloadYouTubeAudio (Download_init_throw message) = Some (''Download init failed: '' @ message)"

datatype ffmpeg_outcome =
    Ffmpeg_end
  | Ffmpeg_error string
  | Ffmpeg_timer
  | Ffmpeg_init_throw string

fun processAudioWithFFmpeg :: "ffmpeg_outcome \<Rightarrow> string option" where
  "processAudioWithFFmpeg Ffmpeg_end = None"
| "processAudioWithFFmpeg (Ffmpeg_error message) = Some (''Processing failed: '' @ message)"
| "processAudioWithFFmpeg Ffmpeg_timer = Some ''Processing timeout''"
| "processAudioWithFFmpeg (Ffmpeg_init_throw message) = Some (''Processing init failed: '' @ message)"

text \<open>
  What the outside world decides in one run of the pipeline: the session id \<open>uuidv4()\<close>
  returns; how the download settles, and whether a failed download leaves a partial input
  file; how the transcoder settles, and whether a failed run leaves a partial output file;
  when the 25 second timer fires (while the download is awaited, while the transcoder is
  awaited, or never, because \<open>clearTimeout\<close> came first); and whether the read stream of the
  output file emits \<open>end\<close> (it does not when the stream fails or the client goes away).
\<close>

datatype deadline = During_download | During_transcode | Cleared

record run =
  sessionId :: string
  download :: download_outcome
  input_left :: bool
  ffmpeg :: ffmpeg_outcome
  output_left :: bool
  timer :: deadline
  stream_end :: bool

definition tempDir :: string where
  "tempDir = ''temp''"

definition inputFile :: "string \<Rightarrow> string" where
  "inputFile sid = tempDir @ ''/'' @ sid @ ''_input.webm''"

definition outputFile :: "string \<Rightarrow> string" where
  "outputFile sid = tempDir @ ''/'' @ sid @ ''_output.mp3''"

text \<open>
  The handler from \<open>const sessionId = uuidv4()\<close> on. On the success path \<open>res.setHeader\<close>
  throws when the timer has already answered, and the throw lands in the same \<open>catch\<close>
  block. The deletion five seconds after \<open>end\<close> is the last step of a run.
\<close>

definition pipeline :: "run \<Rightarrow> string \<Rightarrow> server \<Rightarrow> server" where
  "pipeline env videoId s =
     (let inp = inputFile (sessionId env);
          out = outputFile (sessionId env);
          s1 = call (CallDownload (videoUrl videoId) inp) s;
          s2 = written (download env = Write_finish \<or> input_left env) inp s1;
          s3 = (if timer env = During_download then requestTimeout_fires s2 else s2)
      in case downloadYouTubeAudio (download env) of
           Some message \<Rightarrow> catch_block inp out message s3
         | None \<Rightarrow>
             (let s4 = call (CallTranscode inp out) s3;
                  s5 = written (ffmpeg env = Ffmpeg_end \<or> output_left env) out s4;
                  s6 = (if timer env = During_transcode then requestTimeout_fires s5 else s5)
              in case processAudioWithFFmpeg (ffmpeg env) of
                   Some message \<Rightarrow> catch_block inp out message s6
                 | None \<Rightarrow>
                     if headersSent s6 then
                       catch_block inp out
                         ''Cannot set headers after they are sent to the client'' s6
                     else
                       (let s7 = respond (AudioStream out) s6 in
                        if stream_end env then delete_pair inp out s7 else s7)))"

definition process_audio ::
  "(string \<Rightarrow> real option) \<Rightarrow> run \<Rightarrow> body \<Rightarrow> server \<Rightarrow> server" where
  "process_audio str2num env b s =
     (let pitchShift = (case body_pitchShift b of None \<Rightarrow> JNum 0 | Some v \<Rightarrow> v);
          playbackSpeed = (case body_playbackSpeed b of None \<Rightarrow> JNum 1 | Some v \<Rightarrow> v)
      in case body_videoId b of
           None \<Rightarrow> respond (ErrorJson 400 ''Invalid video ID'') s
         | Some videoId \<Rightarrow>
             if videoId = [] \<or> \<not> regex_test videoId then
               respond (ErrorJson 400 ''Invalid video ID'') s
             else if js_lt str2num pitchShift (- 12) \<or> js_gt str2num pitchShift 12 then
               respond (ErrorJson 400 ''Pitch shift must be between -12 and 12'') s
             else if js_lt str2num playbackSpeed 0.25 \<or> js_gt str2num playbackSpeed 2.0 then
               respond (ErrorJson 400 ''Speed must be between 0.25 and 2.0'') s
             else pipeline env videoId s)"

text \<open>
  Two properties of a state that the proofs below carry along a run: the \<open>headersSent\<close> flag
  is set exactly when one response is recorded and none is recorded otherwise; and no
  recorded response has status 400.
\<close>

definition sent_once :: "server \<Rightarrow> bool" where
  "sent_once s = (if headersSent s then responses s = 1 else responses s = 0)"

definition no400 :: "server \<Rightarrow> bool" where
  "no400 s = list_all (\<lambda>e. case e of Respond r \<Rightarrow> status r \<noteq> 400 | _ \<Rightarrow> True) (events s)"

section \<open>Properties of the Filter Planner\<close>

subsection \<open>The two loops\<close>

lemma halve_loop_spec: "halve_loop s fs = (r, c) \<Longrightarrow> spec_halving s fs r c"
proof (induction s fs rule: halve_loop.induct)
  case (1 speed fs)
  show ?case
  proof (cases "speed > 2")
    case True
    with 1 show ?thesis by (auto intro: spec_halving.intros)
  next
    case False
    with 1 show ?thesis by (auto intro: spec_halving.intros)
  qed
qed

lemma spec_halve_loop: "spec_halving s fs r c \<Longrightarrow> halve_loop s fs = (r, c)"
  by (induction rule: spec_halving.induct) auto

lemma spec_double_loop: "spec_doubling s fs r c \<Longrightarrow> double_loop s fs = Some (r, c)"
  by (induction rule: spec_doubling.induct) (auto simp: double_loop.simps)


lemma double_loop_spec_aux:
  assumes "double_loop s fs = Some p"
  shows "spec_doubling s fs (fst p) (snd p) \<and> 1/2 \<le> fst p \<and> (if s < 1/2 then fst p < 1 else fst p = s)"
proof (rule double_loop.raw_induct[where P = "\<lambda>s fs p. spec_doubling s fs (fst p) (snd p) \<and> 1/2 \<le> fst p \<and> (if s < 1/2 then fst p < 1 else fst p = s)", OF _ assms])
  fix f :: "real \<Rightarrow> audio_filter list \<Rightarrow> (real \<times> audio_filter list) option"
  fix speed :: real and fs :: "audio_filter list" and q :: "real \<times> audio_filter list"
  assume IH: "\<And>s' fs' y. f s' fs' = Some y \<Longrightarrow>
     spec_doubling s' fs' (fst y) (snd y) \<and> 1/2 \<le> fst y \<and> (if s' < 1/2 then fst y < 1 else fst y = s')"
  assume body: "(if speed < 5 / 10 then f (speed / (5 / 10)) (fs @ [Atempo (5 / 10)]) else Some (speed, fs)) = Some q"
  show "spec_doubling speed fs (fst q) (snd q) \<and> 1/2 \<le> fst q \<and> (if speed < 1/2 then fst q < 1 else fst q = speed)"
  proof (cases "speed < 1/2")
    case True
    with body have call: "f (speed / (5 / 10)) (fs @ [Atempo (5 / 10)]) = Some q" by simp
    from IH[OF call] True show ?thesis
      by (auto intro: spec_doubling.intros split: if_splits)
  next
    case False
    then have "spec_doubling speed fs speed fs" by (intro doubling_done) simp
    with False body show ?thesis by auto
  qed
qed

lemma halve_loop_form:
  "\<exists>m. halve_loop s fs = (s / 2 ^ m, fs @ replicate m (Atempo 2)) \<and> s / 2 ^ m \<le> 2
       \<and> (if s > 2 then 1 < s / 2 ^ m else m = 0)"
proof (induction s fs rule: halve_loop.induct)
  case (1 speed fs)
  show ?case
  proof (cases "speed > 2")
    case True
    from 1[OF True] obtain m where
      m: "halve_loop (speed / 2) (fs @ [Atempo 2]) = (speed / 2 / 2 ^ m, (fs @ [Atempo 2]) @ replicate m (Atempo 2))"
         "speed / 2 / 2 ^ m \<le> 2" "if speed / 2 > 2 then 1 < speed / 2 / 2 ^ m else m = 0"
      by blast
    have eq: "speed / 2 / 2 ^ m = speed / 2 ^ Suc m" by simp
    have "halve_loop speed fs = (speed / 2 ^ Suc m, fs @ replicate (Suc m) (Atempo 2))"
      using True m(1) eq by (simp add: replicate_app_Cons_same)
    moreover have "speed / 2 ^ Suc m \<le> 2" using m(2) eq by simp
    moreover have "1 < speed / 2 ^ Suc m" using m(3) True eq by (auto split: if_splits)
    ultimately show ?thesis using True by (intro exI[of _ "Suc m"]) simp
  next
    case False
    then show ?thesis by (intro exI[of _ 0]) simp
  qed
qed

lemma double_loop_form_aux:
  "0 < s \<Longrightarrow> 1/2 \<le> s * 2 ^ k \<Longrightarrow>
   \<exists>n. double_loop s fs = Some (s * 2 ^ n, fs @ replicate n (Atempo 0.5)) \<and> 1/2 \<le> s * 2 ^ n
       \<and> (if s < 1/2 then s * 2 ^ n < 1 else n = 0)"
proof (induction k arbitrary: s fs)
  case 0
  then have "double_loop s fs = Some (s, fs)" by (subst double_loop.simps) simp
  with 0 show ?case by (intro exI[of _ 0]) simp
next
  case (Suc k)
  show ?case
  proof (cases "s < 1/2")
    case False
    then have "double_loop s fs = Some (s, fs)" by (subst double_loop.simps) simp
    with False show ?thesis by (intro exI[of _ 0]) simp
  next
    case True
    have pos: "0 < s / 0.5" using Suc.prems(1) by simp
    have big: "1/2 \<le> (s / 0.5) * 2 ^ k" using Suc.prems(2) by simp
    from Suc.IH[OF pos big, of "fs @ [Atempo 0.5]"] obtain n where
      n: "double_loop (s / 0.5) (fs @ [Atempo 0.5]) = Some (s / 0.5 * 2 ^ n, (fs @ [Atempo 0.5]) @ replicate n (Atempo 0.5))"
         "1/2 \<le> s / 0.5 * 2 ^ n" "if s / 0.5 < 1/2 then s / 0.5 * 2 ^ n < 1 else n = 0"
      by blast
    have eq: "s / 0.5 * 2 ^ n = s * 2 ^ Suc n" by simp
    have unfold: "double_loop s fs = double_loop (s / 0.5) (fs @ [Atempo 0.5])"
      using True by (subst double_loop.simps) simp
    have "double_loop s fs = Some (s * 2 ^ Suc n, fs @ replicate (Suc n) (Atempo 0.5))"
      using unfold n(1) eq by (simp add: replicate_app_Cons_same)
    moreover have "1/2 \<le> s * 2 ^ Suc n" using n(2) eq by simp
    moreover have "s * 2 ^ Suc n < 1" using n(3) True eq by (auto split: if_splits)
    ultimately show ?thesis using True by (intro exI[of _ "Suc n"]) simp
  qed
qed

lemma double_loop_form:
  assumes "0 < s"
  shows "\<exists>n. double_loop s fs = Some (s * 2 ^ n, fs @ replicate n (Atempo 0.5)) \<and> 1/2 \<le> s * 2 ^ n
       \<and> (if s < 1/2 then s * 2 ^ n < 1 else n = 0)"
proof -
  obtain k :: nat where "1 / (2 * s) < 2 ^ k"
    using real_arch_pow[of 2 "1 / (2 * s)"] by auto
  then have "1/2 \<le> s * 2 ^ k" using assms by (simp add: field_simps)
  from double_loop_form_aux[OF assms this] show ?thesis .
qed

lemma spec_doubling_nonpos: "spec_doubling s fs r c \<Longrightarrow> s \<le> 0 \<Longrightarrow> r \<le> 0"
  by (induction rule: spec_doubling.induct) auto

lemma double_loop_diverges: "s \<le> 0 \<Longrightarrow> double_loop s fs = None"
proof (rule ccontr)
  assume s: "s \<le> 0" and "double_loop s fs \<noteq> None"
  then obtain p where p: "double_loop s fs = Some p" by auto
  from double_loop_spec_aux[OF p] have "spec_doubling s fs (fst p) (snd p)" "1/2 \<le> fst p" by auto
  with spec_doubling_nonpos[OF _ s] show False by fastforce
qed

lemma atempo_factors_append: "atempo_factors (xs @ ys) = atempo_factors xs @ atempo_factors ys"
  by (induction xs rule: atempo_factors.induct) auto

lemma atempo_factors_replicate: "atempo_factors (replicate n (Atempo r)) = replicate n r"
  by (induction n) auto

lemma prod_list_replicate_real: "prod_list (replicate n (r::real)) = r ^ n"
  by (induction n) auto

text \<open>What the tempo block returns on a positive speed.\<close>

lemma tempo_steps_form:
  assumes "0 < s"
  shows "\<exists>m n r. tempo_steps s fs =
            Some (fs @ replicate m (Atempo 2) @ replicate n (Atempo 0.5) @ (if r \<noteq> 1 then [Atempo r] else []))
          \<and> r = s / 2 ^ m * 2 ^ n \<and> 1/2 \<le> r \<and> r \<le> 2 \<and> (r = 1 \<longrightarrow> s = 1)"
proof (cases "s = 1")
  case True
  then have "tempo_steps s fs = Some fs" by (simp add: tempo_steps_def)
  with True show ?thesis by (intro exI[of _ 0] exI[of _ "1::real"]) simp
next
  case False
  obtain m where m: "halve_loop s fs = (s / 2 ^ m, fs @ replicate m (Atempo 2))"
      "s / 2 ^ m \<le> 2" "if s > 2 then 1 < s / 2 ^ m else m = 0"
    using halve_loop_form[of s fs] by blast
  define r1 where "r1 = s / 2 ^ m"
  have r1pos: "0 < r1" using assms by (simp add: r1_def)
  obtain n where n: "double_loop r1 (fs @ replicate m (Atempo 2)) =
        Some (r1 * 2 ^ n, (fs @ replicate m (Atempo 2)) @ replicate n (Atempo 0.5))"
      "1/2 \<le> r1 * 2 ^ n" "if r1 < 1/2 then r1 * 2 ^ n < 1 else n = 0"
    using double_loop_form[OF r1pos, of "fs @ replicate m (Atempo 2)"] by blast
  define r where "r = r1 * 2 ^ n"
  have m2: "r1 \<le> 2" using m(2) by (simp add: r1_def)
  have m3: "if s > 2 then 1 < r1 else r1 = s" using m(3) by (auto simp: r1_def split: if_splits)
  have le2: "r \<le> 2" using n(3) m2 by (auto simp: r_def split: if_splits)
  have ne1: "r \<noteq> 1" using n(3) m3 False by (auto simp: r_def split: if_splits)
  have "tempo_steps s fs =
      Some (fs @ replicate m (Atempo 2) @ replicate n (Atempo 0.5) @ (if r \<noteq> 1 then [Atempo r] else []))"
    using False m(1) n(1) ne1 by (simp add: tempo_steps_def r_def r1_def)
  moreover have "r = s / 2 ^ m * 2 ^ n" by (simp add: r_def r1_def)
  moreover have "1/2 \<le> r" using n(2) by (simp add: r_def)
  ultimately show ?thesis using le2 ne1 by blast
qed

lemma tempo_steps_nonpos: "s \<le> 0 \<Longrightarrow> tempo_steps s fs = None"
  by (simp add: tempo_steps_def double_loop_diverges)

lemma halve_loop_prefix:
  "halve_loop s (fs @ gs) = (case halve_loop s gs of (r, c) \<Rightarrow> (r, fs @ c))"
proof (induction s gs rule: halve_loop.induct)
  case (1 speed gs)
  show ?case
  proof (cases "speed > 2")
    case True
    from 1[OF True] True show ?thesis by simp
  next
    case False
    then show ?thesis by simp
  qed
qed

lemma double_loop_prefix_aux:
  "0 < s \<Longrightarrow> 1/2 \<le> s * 2 ^ k \<Longrightarrow>
   double_loop s (fs @ gs) = map_option (\<lambda>(r, c). (r, fs @ c)) (double_loop s gs)"
proof (induction k arbitrary: s gs)
  case 0
  then have stop: "\<And>hs. double_loop s hs = Some (s, hs)"
    by (subst double_loop.simps) simp
  show ?case by (simp add: stop)
next
  case (Suc k)
  show ?case
  proof (cases "s < 1/2")
    case False
    then have stop: "\<And>hs. double_loop s hs = Some (s, hs)"
      by (subst double_loop.simps) simp
    show ?thesis by (simp add: stop)
  next
    case True
    have pos: "0 < s / 0.5" using Suc.prems(1) by simp
    have big: "1/2 \<le> (s / 0.5) * 2 ^ k" using Suc.prems(2) by simp
    have step: "\<And>hs. double_loop s hs = double_loop (s / 0.5) (hs @ [Atempo 0.5])"
      using True by (subst double_loop.simps) simp
    have "double_loop s (fs @ gs) = double_loop (s / 0.5) (fs @ (gs @ [Atempo 0.5]))"
      using step[of "fs @ gs"] by simp
    also have "\<dots> = map_option (\<lambda>(r, c). (r, fs @ c)) (double_loop (s / 0.5) (gs @ [Atempo 0.5]))"
      by (rule Suc.IH[OF pos big])
    also have "double_loop (s / 0.5) (gs @ [Atempo 0.5]) = double_loop s gs"
      using step[of gs] by simp
    finally show ?thesis .
  qed
qed

lemma double_loop_prefix:
  "double_loop s (fs @ gs) = map_option (\<lambda>(r, c). (r, fs @ c)) (double_loop s gs)"
proof (cases "0 < s")
  case False
  then show ?thesis by (simp add: double_loop_diverges)
next
  case True
  obtain k :: nat where "1 / (2 * s) < 2 ^ k"
    using real_arch_pow[of 2 "1 / (2 * s)"] by auto
  then have "1/2 \<le> s * 2 ^ k" using True by (simp add: field_simps)
  from double_loop_prefix_aux[OF True this] show ?thesis .
qed

lemma tempo_steps_prefix: "tempo_steps s fs = map_option ((@) fs) (tempo_steps s [])"
proof (cases "s = 1")
  case True
  then show ?thesis by (simp add: tempo_steps_def)
next
  case False
  obtain r c where h: "halve_loop s [] = (r, c)" by (cases "halve_loop s []")
  with halve_loop_prefix[of s fs "[]"] have h': "halve_loop s fs = (r, fs @ c)" by simp
  show ?thesis
  proof (cases "double_loop r c")
    case None
    with double_loop_prefix[of r fs c] have "double_loop r (fs @ c) = None" by simp
    with None h h' False show ?thesis by (simp add: tempo_steps_def)
  next
    case (Some p)
    obtain r' c' where p: "p = (r', c')" by (cases p)
    with Some double_loop_prefix[of r fs c] have "double_loop r (fs @ c) = Some (r', fs @ c')" by simp
    with Some p h h' False show ?thesis by (simp add: tempo_steps_def)
  qed
qed

subsection \<open>The planner's chain\<close>

lemma tempo_steps_spec:
  assumes "speed \<noteq> 1"
  shows "tempo_steps speed [] = Some chain \<longleftrightarrow> spec_tempo_chain speed chain"
proof
  assume run: "tempo_steps speed [] = Some chain"
  obtain r1 c1 where h: "halve_loop speed [] = (r1, c1)" by (cases "halve_loop speed []")
  with run assms obtain p where d: "double_loop r1 c1 = Some p"
    by (auto simp: tempo_steps_def split: option.splits)
  obtain r2 c2 where p: "p = (r2, c2)" by (cases p)
  from double_loop_spec_aux[OF d] p
  have sd: "spec_doubling r1 c1 r2 c2" and lo: "1/2 \<le> r2"
    and shape: "if r1 < 1/2 then r2 < 1 else r2 = r1" by auto
  obtain m where m: "halve_loop speed [] = (speed / 2 ^ m, [] @ replicate m (Atempo 2))"
      "speed / 2 ^ m \<le> 2" "if speed > 2 then 1 < speed / 2 ^ m else m = 0"
    using halve_loop_form[of speed "[]"] by blast
  from m(1) h have r1: "r1 = speed / 2 ^ m" by simp
  have m2: "r1 \<le> 2" using m(2) r1 by simp
  have m3: "if speed > 2 then 1 < r1 else r1 = speed" using m(3) r1 by (auto split: if_splits)
  have hi: "r2 \<le> 2" using shape m2 by (auto split: if_splits)
  have ne: "r2 \<noteq> 1" using shape m3 assms by (auto split: if_splits)
  have chain: "chain = c2 @ [Atempo r2]"
    using run assms h d p ne by (simp add: tempo_steps_def)
  have "spec_tempo_chain speed (c2 @ [Atempo r2])"
    using halve_loop_spec[OF h] sd lo hi ne by (intro spec_final) simp_all
  with chain show "spec_tempo_chain speed chain" by simp
next
  assume "spec_tempo_chain speed chain"
  then show "tempo_steps speed [] = Some chain"
  proof cases
    case (spec_final ratio1 chain1 ratio2 chain2)
    from spec_halve_loop[OF spec_final(2)] spec_double_loop[OF spec_final(3)] spec_final(1,6) assms
    show ?thesis by (simp add: tempo_steps_def)
  qed
qed

text \<open>
  Claim C1. For every speed other than 1 the tempo block of the planner returns a chain
  exactly when the decomposition of section 4.1 yields that chain, and then it is that
  chain: x2 steps while the running ratio is above 2, x0.5 steps while it is below 0.5, and
  one final step at the ratio reached, which lies in [0.5, 2] and is not 1. The filters
  pushed before the block stay in front and do not change the steps. Speed 3 gives
  [x2, x1.5]; speed 0.2 gives [x0.5, x0.5, x0.8].
\<close>

theorem tempo_decomposition_follows_spec:
  "(\<forall>speed chain. speed \<noteq> 1 \<longrightarrow>
        (tempo_steps speed [] = Some chain \<longleftrightarrow> spec_tempo_chain speed chain))
   \<and> (\<forall>speed fs. tempo_steps speed fs = map_option ((@) fs) (tempo_steps speed []))
   \<and> tempo_steps 3 [] = Some [Atempo 2, Atempo 1.5]
   \<and> tempo_steps 0.2 [] = Some [Atempo 0.5, Atempo 0.5, Atempo 0.8]"
proof (intro conjI allI impI)
  fix speed :: real and chain
  assume "speed \<noteq> 1"
  then show "tempo_steps speed [] = Some chain \<longleftrightarrow> spec_tempo_chain speed chain"
    by (rule tempo_steps_spec)
next
  fix speed :: real and fs
  show "tempo_steps speed fs = map_option ((@) fs) (tempo_steps speed [])"
    by (rule tempo_steps_prefix)
next
  show "tempo_steps 3 [] = Some [Atempo 2, Atempo 1.5]"
    by (simp add: tempo_steps_def double_loop.simps)
next
  show "tempo_steps 0.2 [] = Some [Atempo 0.5, Atempo 0.5, Atempo 0.8]"
    by (simp add: tempo_steps_def double_loop.simps)
qed

theorem tempo_decomposition_follows_spec_witness:
  "(3::real) \<noteq> 1 \<and> spec_tempo_chain 3 [Atempo 2, Atempo 1.5]"
proof -
  from tempo_decomposition_follows_spec have run: "tempo_steps 3 [] = Some [Atempo 2, Atempo 1.5]" by blast
  from tempo_decomposition_follows_spec have "(3::real) \<noteq> 1 \<longrightarrow>
      (tempo_steps 3 [] = Some [Atempo 2, Atempo 1.5] \<longleftrightarrow> spec_tempo_chain 3 [Atempo 2, Atempo 1.5])"
    by blast
  with run show ?thesis by simp
qed

text \<open>
  Claim C9. For every positive playback speed (and any pitch shift) the planner returns a
  chain; every tempo factor in it lies in [0.5, 2], and the product of the tempo factors is
  the requested speed.
\<close>

theorem tempo_chain_factors_and_product:
  assumes "0 < playbackSpeed"
  shows "\<exists>chain. audioFilters pitchShift playbackSpeed = Some chain
           \<and> (\<forall>r \<in> set (atempo_factors chain). 1/2 \<le> r \<and> r \<le> 2)
           \<and> prod_list (atempo_factors chain) = playbackSpeed"
proof -
  define fs where "fs = (if pitchShift \<noteq> 0 then [Asetrate_aresample 44100 (2 powr (pitchShift / 12)) 44100] else [])"
  have fs: "atempo_factors fs = []" by (simp add: fs_def)
  obtain m n r where run: "tempo_steps playbackSpeed fs =
        Some (fs @ replicate m (Atempo 2) @ replicate n (Atempo 0.5) @ (if r \<noteq> 1 then [Atempo r] else []))"
      and r: "r = playbackSpeed / 2 ^ m * 2 ^ n" and lo: "1/2 \<le> r" and hi: "r \<le> 2"
    using tempo_steps_form[OF assms, of fs] by blast
  define chain where
    "chain = fs @ replicate m (Atempo 2) @ replicate n (Atempo 0.5) @ (if r \<noteq> 1 then [Atempo r] else [])"
  have factors: "atempo_factors chain = replicate m 2 @ replicate n 0.5 @ (if r \<noteq> 1 then [r] else [])"
    by (simp add: chain_def atempo_factors_append atempo_factors_replicate fs)
  have "audioFilters pitchShift playbackSpeed = Some chain"
    using run by (simp add: audioFilters_def fs_def chain_def)
  moreover have "\<forall>x \<in> set (atempo_factors chain). 1/2 \<le> x \<and> x \<le> 2"
    using lo hi by (auto simp: factors)
  moreover have "prod_list (atempo_factors chain) = playbackSpeed"
  proof -
    have "prod_list (atempo_factors chain) = 2 ^ m * ((1/2) ^ n * r)"
      by (simp add: factors prod_list_replicate_real)
    also have "\<dots> = playbackSpeed" by (simp add: r power_one_over field_simps)
    finally show ?thesis .
  qed
  ultimately show ?thesis by blast
qed

theorem tempo_chain_factors_and_product_witness:
  "(0::real) < 0.2
   \<and> audioFilters 0 0.2 = Some [Atempo 0.5, Atempo 0.5, Atempo 0.8]
   \<and> atempo_factors [Atempo 0.5, Atempo 0.5, Atempo 0.8] = [0.5, 0.5, 0.8]
   \<and> prod_list [0.5, 0.5, 0.8] = (0.2::real)"
  using tempo_chain_factors_and_product[of "0.2" 0]
  by (simp add: audioFilters_def tempo_steps_def double_loop.simps)

text \<open>
  Claim C5. For every pitch shift other than 0, every chain the planner returns starts with
  the one pitch filter, \<open>asetrate\<close> at 44100 times 2 to the power pitchShift/12 followed by
  \<open>aresample\<close> to 44100, and all the filters after it are tempo steps; the planner returns
  a chain for every positive speed. (At pitch shift 12 the ratio is 2: see the witness.)
\<close>

theorem pitch_filter_first:
  assumes "pitchShift \<noteq> 0"
  shows "(\<forall>playbackSpeed chain. audioFilters pitchShift playbackSpeed = Some chain \<longrightarrow>
            (\<exists>tempo. chain = Asetrate_aresample 44100 (2 powr (pitchShift / 12)) 44100 # tempo
                   \<and> list_all is_atempo tempo))
       \<and> (\<forall>playbackSpeed. 0 < playbackSpeed \<longrightarrow> (\<exists>chain. audioFilters pitchShift playbackSpeed = Some chain))"
proof (intro conjI allI impI)
  fix playbackSpeed chain
  assume run: "audioFilters pitchShift playbackSpeed = Some chain"
  let ?p = "Asetrate_aresample 44100 (2 powr (pitchShift / 12)) 44100"
  from run assms have ts: "tempo_steps playbackSpeed [?p] = Some chain"
    by (simp add: audioFilters_def)
  have pos: "0 < playbackSpeed"
  proof (rule ccontr)
    assume "\<not> 0 < playbackSpeed"
    then have "tempo_steps playbackSpeed [?p] = None" by (simp add: tempo_steps_nonpos)
    with ts show False by simp
  qed
  obtain m n r where "tempo_steps playbackSpeed [?p] =
        Some ([?p] @ replicate m (Atempo 2) @ replicate n (Atempo 0.5) @ (if r \<noteq> 1 then [Atempo r] else []))"
    using tempo_steps_form[OF pos, of "[?p]"] by blast
  with ts have "chain = ?p # (replicate m (Atempo 2) @ replicate n (Atempo 0.5) @ (if r \<noteq> 1 then [Atempo r] else []))"
    by simp
  moreover have "list_all is_atempo (replicate m (Atempo 2) @ replicate n (Atempo 0.5) @ (if r \<noteq> 1 then [Atempo r] else []))"
    by (auto simp: list_all_iff)
  ultimately show "\<exists>tempo. chain = ?p # tempo \<and> list_all is_atempo tempo" by blast
next
  fix playbackSpeed :: real
  assume "0 < playbackSpeed"
  from tempo_steps_form[OF this]
  show "\<exists>chain. audioFilters pitchShift playbackSpeed = Some chain"
    unfolding audioFilters_def by blast
qed

theorem pitch_filter_first_witness:
  "(12::real) \<noteq> 0 \<and> audioFilters 12 3 = Some [Asetrate_aresample 44100 2 44100, Atempo 2, Atempo 1.5]
   \<and> audioFilters 12 1 = Some [Asetrate_aresample 44100 2 44100]"
  using pitch_filter_first[of 12] by (simp add: audioFilters_def tempo_steps_def double_loop.simps)

section \<open>Properties of the Temp-File Reaper\<close>

lemma sweep_file_doomed:
  "sweep_file now file d = (if doomed now d file then filter (\<lambda>p. fst p \<noteq> file) d else d)"
  by (auto simp: sweep_file_def doomed_def statSync_def unlinkSync_def Let_def split: option.splits)

lemma map_of_filter_other: "k \<noteq> file \<Longrightarrow> map_of (filter (\<lambda>p. fst p \<noteq> file) d) k = map_of d k"
  by (induction d) auto

lemma doomed_filter_other:
  "k \<noteq> file \<Longrightarrow> doomed now (filter (\<lambda>p. fst p \<noteq> file) d) k = doomed now d k"
  by (simp add: doomed_def map_of_filter_other)

lemma fold_sweep_file:
  "fold (sweep_file now) names d = filter (\<lambda>p. \<not> (fst p \<in> set names \<and> doomed now d (fst p))) d"
proof (induction names arbitrary: d)
  case Nil
  then show ?case by simp
next
  case (Cons n names)
  show ?case
  proof (cases "doomed now d n")
    case False
    then have "fold (sweep_file now) (n # names) d = fold (sweep_file now) names d"
      by (simp add: sweep_file_doomed)
    also have "\<dots> = filter (\<lambda>p. \<not> (fst p \<in> set names \<and> doomed now d (fst p))) d"
      by (rule Cons.IH)
    also have "\<dots> = filter (\<lambda>p. \<not> (fst p \<in> set (n # names) \<and> doomed now d (fst p))) d"
      using False by (intro filter_cong) auto
    finally show ?thesis .
  next
    case True
    let ?d' = "filter (\<lambda>p. fst p \<noteq> n) d"
    have "fold (sweep_file now) (n # names) d = fold (sweep_file now) names ?d'"
      using True by (simp add: sweep_file_doomed)
    also have "\<dots> = filter (\<lambda>p. \<not> (fst p \<in> set names \<and> doomed now ?d' (fst p))) ?d'"
      by (rule Cons.IH)
    also have "\<dots> = filter (\<lambda>p. fst p \<noteq> n \<and> \<not> (fst p \<in> set names \<and> doomed now ?d' (fst p))) d"
      by simp
    also have "\<dots> = filter (\<lambda>p. \<not> (fst p \<in> set (n # names) \<and> doomed now d (fst p))) d"
    proof (intro filter_cong refl)
      fix p
      show "(fst p \<noteq> n \<and> \<not> (fst p \<in> set names \<and> doomed now ?d' (fst p)))
            = (\<not> (fst p \<in> set (n # names) \<and> doomed now d (fst p)))"
      proof (cases "fst p = n")
        case True
        with \<open>doomed now d n\<close> show ?thesis by simp
      next
        case False
        then show ?thesis by (simp add: doomed_filter_other)
      qed
    qed
    finally show ?thesis .
  qed
qed

lemma cleanup_filter:
  "fold (sweep_file now) (readdirSync d) d = filter (\<lambda>p. \<not> doomed now d (fst p)) d"
  unfolding fold_sweep_file readdirSync_def by (intro filter_cong) auto

lemma map_of_filter_keys:
  "P k \<Longrightarrow> map_of (filter (\<lambda>p. P (fst p)) d) k = map_of d k"
  by (induction d) auto

lemma doomed_mono: "now \<le> now' \<Longrightarrow> doomed now d k \<Longrightarrow> doomed now' d k"
  by (auto simp: doomed_def split: option.splits)

lemma sweep_twice:
  assumes "now \<le> now'"
  shows "cleanupTempFiles now' (cleanupTempFiles now dir) = cleanupTempFiles now' dir"
proof (cases dir)
  case None
  then show ?thesis by (simp add: cleanupTempFiles_def)
next
  case (Some d)
  let ?d1 = "filter (\<lambda>p. \<not> doomed now d (fst p)) d"
  have keep: "doomed now' ?d1 (fst p) = doomed now' d (fst p)" if "\<not> doomed now d (fst p)" for p
    using that map_of_filter_keys[of "\<lambda>k. \<not> doomed now d k" "fst p" d] by (simp add: doomed_def)
  have "filter (\<lambda>p. \<not> doomed now' ?d1 (fst p)) ?d1
        = filter (\<lambda>p. \<not> doomed now d (fst p) \<and> \<not> doomed now' d (fst p)) d"
    unfolding filter_filter using keep by (intro filter_cong refl) auto
  also have "\<dots> = filter (\<lambda>p. \<not> doomed now' d (fst p)) d"
    using doomed_mono[OF assms] by (intro filter_cong) auto
  finally show ?thesis using Some by (simp add: cleanupTempFiles_def cleanup_filter)
qed

text \<open>
  Claim C8, as stated, fails: the sweep reads the clock at each run. A file written at time 0
  is 700000 ms old at the first run and stays; at the next run of the five-minute interval,
  300000 ms later, it is over 900000 ms old and the second run deletes it, with nothing added
  in between.
\<close>

theorem second_sweep_deletes_aged_file:
  "cleanupTempFiles 700000 (Some [(''a_input.webm'', \<lparr>mtime = Some 0, unlink_ok = True\<rparr>)])
     = Some [(''a_input.webm'', \<lparr>mtime = Some 0, unlink_ok = True\<rparr>)]
   \<and> cleanupTempFiles 1000000
       (cleanupTempFiles 700000 (Some [(''a_input.webm'', \<lparr>mtime = Some 0, unlink_ok = True\<rparr>)]))
     = Some []
   \<and> cleanupTempFiles 1000000
       (cleanupTempFiles 700000 (Some [(''a_input.webm'', \<lparr>mtime = Some 0, unlink_ok = True\<rparr>)]))
     \<noteq> cleanupTempFiles 700000 (Some [(''a_input.webm'', \<lparr>mtime = Some 0, unlink_ok = True\<rparr>)])"
  by (simp add: cleanupTempFiles_def readdirSync_def sweep_file_def statSync_def unlinkSync_def)

text \<open>
  Claim C8, amended. A sweep at clock reading \<open>now\<close> removes exactly the entries whose name is
  doomed at \<open>now\<close>: \<open>statSync\<close> reads the entry, its age is over 900000 ms, and \<open>unlinkSync\<close>
  succeeds on it; every other entry stays, in order. At one clock reading the sweep is
  therefore idempotent: a second run at the same reading, with no files added, deletes
  nothing. When the clock has moved on from \<open>now\<close> to \<open>now'\<close>, the second run removes from what
  the first run left exactly the entries doomed at \<open>now'\<close>, and the two runs together leave
  what a single run at \<open>now'\<close> leaves.
\<close>

theorem sweep_idempotent_at_fixed_clock:
  "cleanupTempFiles now (Some d) = Some (filter (\<lambda>p. \<not> doomed now d (fst p)) d)
   \<and> cleanupTempFiles now (cleanupTempFiles now dir) = cleanupTempFiles now dir
   \<and> (now \<le> now' \<longrightarrow>
        cleanupTempFiles now' (cleanupTempFiles now dir) = cleanupTempFiles now' dir
      \<and> cleanupTempFiles now' (Some (filter (\<lambda>p. \<not> doomed now d (fst p)) d))
          = Some (filter (\<lambda>p. \<not> doomed now' d (fst p)) (filter (\<lambda>p. \<not> doomed now d (fst p)) d)))"
proof (intro conjI impI)
  show first: "cleanupTempFiles now (Some d) = Some (filter (\<lambda>p. \<not> doomed now d (fst p)) d)"
    by (simp add: cleanupTempFiles_def cleanup_filter)
  show "cleanupTempFiles now (cleanupTempFiles now dir) = cleanupTempFiles now dir"
    by (rule sweep_twice) simp
  assume le: "now \<le> now'"
  then show "cleanupTempFiles now' (cleanupTempFiles now dir) = cleanupTempFiles now' dir"
    by (rule sweep_twice)
  have "cleanupTempFiles now' (Some (filter (\<lambda>p. \<not> doomed now d (fst p)) d))
      = cleanupTempFiles now' (cleanupTempFiles now (Some d))"
    by (simp only: first)
  also have "\<dots> = cleanupTempFiles now' (Some d)" using le by (rule sweep_twice)
  also have "\<dots> = Some (filter (\<lambda>p. \<not> doomed now' d (fst p)) d)"
    by (simp add: cleanupTempFiles_def cleanup_filter)
  also have "filter (\<lambda>p. \<not> doomed now' d (fst p)) d
      = filter (\<lambda>p. \<not> doomed now' d (fst p)) (filter (\<lambda>p. \<not> doomed now d (fst p)) d)"
    unfolding filter_filter using doomed_mono[OF le] by (intro filter_cong refl) auto
  finally show "cleanupTempFiles now' (Some (filter (\<lambda>p. \<not> doomed now d (fst p)) d))
      = Some (filter (\<lambda>p. \<not> doomed now' d (fst p)) (filter (\<lambda>p. \<not> doomed now d (fst p)) d))" .
qed

theorem sweep_idempotent_at_fixed_clock_witness:
  "(1000000::int) \<le> 1500000
   \<and> cleanupTempFiles 1000000 (Some [(''a_input.webm'', \<lparr>mtime = Some 0, unlink_ok = True\<rparr>),
                                   (''b_output.mp3'', \<lparr>mtime = Some 500000, unlink_ok = True\<rparr>),
                                   (''keep'', \<lparr>mtime = Some 0, unlink_ok = False\<rparr>)])
     = Some [(''b_output.mp3'', \<lparr>mtime = Some 500000, unlink_ok = True\<rparr>),
             (''keep'', \<lparr>mtime = Some 0, unlink_ok = False\<rparr>)]
   \<and> cleanupTempFiles 1000000 (Some [(''b_output.mp3'', \<lparr>mtime = Some 500000, unlink_ok = True\<rparr>),
             (''keep'', \<lparr>mtime = Some 0, unlink_ok = False\<rparr>)])
     = Some [(''b_output.mp3'', \<lparr>mtime = Some 500000, unlink_ok = True\<rparr>),
             (''keep'', \<lparr>mtime = Some 0, unlink_ok = False\<rparr>)]
   \<and> cleanupTempFiles 1500000 (Some [(''b_output.mp3'', \<lparr>mtime = Some 500000, unlink_ok = True\<rparr>),
             (''keep'', \<lparr>mtime = Some 0, unlink_ok = False\<rparr>)])
     = Some [(''keep'', \<lparr>mtime = Some 0, unlink_ok = False\<rparr>)]
   \<and> doomed 1500000 [(''a_input.webm'', \<lparr>mtime = Some 0, unlink_ok = True\<rparr>),
                      (''b_output.mp3'', \<lparr>mtime = Some 500000, unlink_ok = True\<rparr>),
                      (''keep'', \<lparr>mtime = Some 0, unlink_ok = False\<rparr>)] ''b_output.mp3''
   \<and> \<not> doomed 1500000 [(''a_input.webm'', \<lparr>mtime = Some 0, unlink_ok = True\<rparr>),
                      (''b_output.mp3'', \<lparr>mtime = Some 500000, unlink_ok = True\<rparr>),
                      (''keep'', \<lparr>mtime = Some 0, unlink_ok = False\<rparr>)] ''keep''"
  using sweep_idempotent_at_fixed_clock[where now = 1000000 and now' = 1500000
      and d = "[(''a_input.webm'', \<lparr>mtime = Some 0, unlink_ok = True\<rparr>),
                (''b_output.mp3'', \<lparr>mtime = Some 500000, unlink_ok = True\<rparr>),
                (''keep'', \<lparr>mtime = Some 0, unlink_ok = False\<rparr>)]"
      and dir = "Some [(''a_input.webm'', \<lparr>mtime = Some 0, unlink_ok = True\<rparr>),
                (''b_output.mp3'', \<lparr>mtime = Some 500000, unlink_ok = True\<rparr>),
                (''keep'', \<lparr>mtime = Some 0, unlink_ok = False\<rparr>)]"]
  by (simp add: cleanupTempFiles_def readdirSync_def sweep_file_def statSync_def unlinkSync_def
      doomed_def)

section \<open>Properties of the handlers\<close>

subsection \<open>Validation\<close>

lemma regex_test_nonempty: "regex_test s \<Longrightarrow> s \<noteq> []"
  by (auto simp: regex_test_def)

lemma video_info_bad_id:
  "\<not> regex_test videoId \<Longrightarrow> video_info videoId outcome = [Respond (ErrorJson 400 ''Invalid video ID format'')]"
  by (simp add: video_info_def)

lemma process_audio_bad_id:
  assumes "\<forall>v. body_videoId b = Some v \<longrightarrow> \<not> regex_test v"
  shows "process_audio str2num env b s = respond (ErrorJson 400 ''Invalid video ID'') s"
  using assms by (cases "body_videoId b") (simp_all add: process_audio_def Let_def)

lemma respond_new_request:
  "events (respond r (new_request disk)) = [Respond r]" "files (respond r (new_request disk)) = disk"
  by (simp_all add: respond_def new_request_def)

text \<open>
  Claim C7. A \<open>videoId\<close> that does not match the pattern gets status 400 from both
  endpoints, and that response is all that happens: no external call is made, and process-audio
  leaves the disk as it was. For process-audio a missing \<open>videoId\<close> counts as not matching.
\<close>

theorem bad_id_400_before_any_call:
  "(\<not> regex_test videoId \<longrightarrow>
      video_info videoId outcome = [Respond (ErrorJson 400 ''Invalid video ID format'')])
   \<and> ((\<forall>v. body_videoId b = Some v \<longrightarrow> \<not> regex_test v) \<longrightarrow>
      events (process_audio str2num env b (new_request disk)) = [Respond (ErrorJson 400 ''Invalid video ID'')]
      \<and> files (process_audio str2num env b (new_request disk)) = disk)"
  by (simp add: video_info_bad_id process_audio_bad_id respond_new_request)

theorem bad_id_400_before_any_call_witness:
  "\<not> regex_test ''dQw4w9WgXc!'' \<and> \<not> regex_test ''dQw4w9WgXcQQ''
   \<and> video_info ''dQw4w9WgXc!'' InfoTimeout = [Respond (ErrorJson 400 ''Invalid video ID format'')]
   \<and> events (process_audio digits_to_number
        \<lparr>sessionId = ''s1'', download = Write_finish, input_left = False, ffmpeg = Ffmpeg_end,
         output_left = False, timer = Cleared, stream_end = True\<rparr>
        \<lparr>body_videoId = Some ''dQw4w9WgXcQQ'', body_pitchShift = None, body_playbackSpeed = None\<rparr>
        (new_request {})) = [Respond (ErrorJson 400 ''Invalid video ID'')]"
  using bad_id_400_before_any_call[of "''dQw4w9WgXc!''" InfoTimeout
      "\<lparr>body_videoId = Some ''dQw4w9WgXcQQ'', body_pitchShift = None, body_playbackSpeed = None\<rparr>"
      digits_to_number
      "\<lparr>sessionId = ''s1'', download = Write_finish, input_left = False, ffmpeg = Ffmpeg_end,
         output_left = False, timer = Cleared, stream_end = True\<rparr>" "{}"]
  by (simp add: regex_test_def id_alphabet_def)

text \<open>
  Claim C4. When \<open>pitchShift\<close> has a numeric value outside [-12, 12] or \<open>playbackSpeed\<close> has a
  numeric value outside [0.25, 2.0], process-audio answers 400, and that response is all
  that happens: no external call is made and no file is created.
\<close>

theorem out_of_range_400_no_files:
  assumes "(body_pitchShift b = Some pv \<and> ToNumber str2num pv = Some p \<and> (p < - 12 \<or> 12 < p))
         \<or> (body_playbackSpeed b = Some sv \<and> ToNumber str2num sv = Some v \<and> (v < 0.25 \<or> 2.0 < v))"
  shows "\<exists>msg. events (process_audio str2num env b (new_request disk)) = [Respond (ErrorJson 400 msg)]
             \<and> files (process_audio str2num env b (new_request disk)) = disk"
proof -
  have "\<exists>msg. process_audio str2num env b (new_request disk) = respond (ErrorJson 400 msg) (new_request disk)"
    using assms
    by (cases "body_videoId b") (auto simp: process_audio_def Let_def js_lt_def js_gt_def)
  then show ?thesis by (auto simp: respond_new_request)
qed

theorem out_of_range_400_no_files_witness:
  "events (process_audio digits_to_number
        \<lparr>sessionId = ''s1'', download = Write_finish, input_left = False, ffmpeg = Ffmpeg_end,
         output_left = False, timer = Cleared, stream_end = True\<rparr>
        \<lparr>body_videoId = Some ''dQw4w9WgXcQ'', body_pitchShift = Some (JNum 13), body_playbackSpeed = None\<rparr>
        (new_request {})) = [Respond (ErrorJson 400 ''Pitch shift must be between -12 and 12'')]
   \<and> events (process_audio digits_to_number
        \<lparr>sessionId = ''s1'', download = Write_finish, input_left = False, ffmpeg = Ffmpeg_end,
         output_left = False, timer = Cleared, stream_end = True\<rparr>
        \<lparr>body_videoId = Some ''dQw4w9WgXcQ'', body_pitchShift = None, body_playbackSpeed = Some (JNum 0.2)\<rparr>
        (new_request {})) = [Respond (ErrorJson 400 ''Speed must be between 0.25 and 2.0'')]"
  using out_of_range_400_no_files[of
      "\<lparr>body_videoId = Some ''dQw4w9WgXcQ'', body_pitchShift = Some (JNum 13), body_playbackSpeed = None\<rparr>"
      "JNum 13" digits_to_number 13 "JNum 0" 0
      "\<lparr>sessionId = ''s1'', download = Write_finish, input_left = False, ffmpeg = Ffmpeg_end,
         output_left = False, timer = Cleared, stream_end = True\<rparr>" "{}"]
    out_of_range_400_no_files[of
      "\<lparr>body_videoId = Some ''dQw4w9WgXcQ'', body_pitchShift = None, body_playbackSpeed = Some (JNum 0.2)\<rparr>"
      "JNum 0" digits_to_number 0 "JNum 0.2" "0.2"
      "\<lparr>sessionId = ''s1'', download = Write_finish, input_left = False, ffmpeg = Ffmpeg_end,
         output_left = False, timer = Cleared, stream_end = True\<rparr>" "{}"]
  by (simp add: process_audio_def regex_test_def id_alphabet_def js_lt_def js_gt_def respond_new_request)

subsection \<open>GET /api/video-info\<close>

text \<open>
  Claim C2, as stated, fails in its second half: the duration comes from the metadata lookup,
  so the 400 for a video that is too long is sent after an external call.
\<close>

theorem too_long_400_follows_lookup:
  "video_info ''dQw4w9WgXcQ'' (InfoResolved \<lparr>lengthSeconds = Some 601\<rparr>)
     = [CallGetInfo ''https://www.youtube.com/watch?v=dQw4w9WgXcQ'',
        Respond (ErrorJson 400 ''Video too long. Please use videos under 10 minutes.'')]
   \<and> is_call (hd (video_info ''dQw4w9WgXcQ'' (InfoResolved \<lparr>lengthSeconds = Some 601\<rparr>)))"
  by (simp add: video_info_def regex_test_def id_alphabet_def videoUrl_def)

text \<open>
  Claim C2, amended. For every well-formed id whose metadata lookup resolves (before the
  15 second timer) with a duration over 600 seconds, video-info makes exactly one external
  call, that lookup, and then answers 400. (When the lookup rejects or the timer wins, the
  duration is never seen and the answer is 404, 408 or 500 from the \<open>catch\<close> block.)
\<close>

theorem too_long_400_after_one_lookup:
  assumes "regex_test videoId" and "lengthSeconds details = Some duration" and "600 < duration"
  shows "video_info videoId (InfoResolved details)
           = [CallGetInfo (videoUrl videoId),
              Respond (ErrorJson 400 ''Video too long. Please use videos under 10 minutes.'')]
       \<and> (\<exists>r. video_info videoId (InfoRejected message) = [CallGetInfo (videoUrl videoId), Respond r]
              \<and> (status r = 404 \<or> status r = 408 \<or> status r = 500))
       \<and> video_info videoId InfoTimeout
           = [CallGetInfo (videoUrl videoId),
              Respond (ErrorJson 408 ''Request timeout - please try again'')]"
proof (intro conjI)
  have ne: "videoId \<noteq> []" using assms(1) by (rule regex_test_nonempty)
  show "video_info videoId (InfoResolved details)
           = [CallGetInfo (videoUrl videoId),
              Respond (ErrorJson 400 ''Video too long. Please use videos under 10 minutes.'')]"
    using assms ne by (simp add: video_info_def)
  show "\<exists>r. video_info videoId (InfoRejected message) = [CallGetInfo (videoUrl videoId), Respond r]
              \<and> (status r = 404 \<or> status r = 408 \<or> status r = 500)"
    using assms(1) ne by (simp add: video_info_def video_info_catch_def)
  show "video_info videoId InfoTimeout
           = [CallGetInfo (videoUrl videoId),
              Respond (ErrorJson 408 ''Request timeout - please try again'')]"
    using assms(1) ne by (simp add: video_info_def video_info_catch_def)
qed

theorem too_long_400_after_one_lookup_witness:
  "regex_test ''dQw4w9WgXcQ'' \<and> (600::nat) < 725
   \<and> video_info ''dQw4w9WgXcQ'' (InfoResolved \<lparr>lengthSeconds = Some 725\<rparr>)
     = [CallGetInfo (videoUrl ''dQw4w9WgXcQ''),
        Respond (ErrorJson 400 ''Video too long. Please use videos under 10 minutes.'')]"
proof -
  have a: "regex_test ''dQw4w9WgXcQ''" by (simp add: regex_test_def id_alphabet_def)
  from too_long_400_after_one_lookup[OF a, of "\<lparr>lengthSeconds = Some 725\<rparr>" 725] a show ?thesis by simp
qed

subsection \<open>POST /api/process-audio: one response\<close>

lemma sent_once_new: "sent_once (new_request disk)"
  by (simp add: sent_once_def responses_def new_request_def)

lemma sent_once_call: "is_call e \<Longrightarrow> sent_once (call e s) = sent_once s"
  by (cases e) (simp_all add: sent_once_def responses_def call_def)

lemma sent_once_written: "sent_once (written present file s) = sent_once s"
  by (simp add: sent_once_def responses_def written_def)

lemma sent_once_respond: "\<not> headersSent s \<Longrightarrow> sent_once s \<Longrightarrow> sent_once (respond r s)"
  by (simp add: sent_once_def responses_def respond_def)

lemma sent_once_timeout: "sent_once s \<Longrightarrow> sent_once (requestTimeout_fires s)"
  by (simp add: requestTimeout_fires_def sent_once_respond)

lemma delete_pair_fields:
  "headersSent (delete_pair i out s) = headersSent s" "events (delete_pair i out s) = events s"
  by (simp_all add: delete_pair_def unlink_if_exists_def)

lemma sent_once_delete_pair: "sent_once (delete_pair i out s) = sent_once s"
  by (simp add: sent_once_def responses_def delete_pair_fields)

lemma sent_once_catch: "sent_once s \<Longrightarrow> sent_once (catch_block i out message s)"
  by (simp add: catch_block_def Let_def sent_once_respond sent_once_delete_pair delete_pair_fields)

lemma sent_once_pipeline: "sent_once s \<Longrightarrow> sent_once (pipeline env videoId s)"
  by (simp add: pipeline_def Let_def sent_once_call sent_once_written sent_once_timeout sent_once_catch sent_once_respond
      sent_once_delete_pair split: option.split)

lemma sent_once_process_audio: "sent_once s \<Longrightarrow> \<not> headersSent s \<Longrightarrow> sent_once (process_audio str2num env b s)"
  by (simp add: process_audio_def Let_def sent_once_respond sent_once_pipeline split: option.split)

lemma sent_once_le: "sent_once s \<Longrightarrow> responses s \<le> 1"
  by (simp add: sent_once_def split: if_splits)

text \<open>
  Claim C6. Whatever the body and however the run goes (each way the download and the
  transcoder can settle, with the 25 second timer firing while either is awaited or not at
  all), process-audio records at most one response. The timer's callback does nothing once
  a response has been sent, and answers 408 otherwise.
\<close>

theorem at_most_one_response:
  "responses (process_audio str2num env b (new_request disk)) \<le> 1
   \<and> (headersSent s \<longrightarrow> requestTimeout_fires s = s)
   \<and> (\<not> headersSent s \<longrightarrow> requestTimeout_fires s = respond (ErrorJson 408 ''Processing timeout'') s)"
proof (intro conjI)
  have "\<not> headersSent (new_request disk)" by (simp add: new_request_def)
  from sent_once_process_audio[OF sent_once_new this] show "responses (process_audio str2num env b (new_request disk)) \<le> 1"
    by (rule sent_once_le)
qed (simp_all add: requestTimeout_fires_def)

theorem at_most_one_response_witness:
  "events (process_audio digits_to_number
        \<lparr>sessionId = ''s1'', download = Download_timer, input_left = True, ffmpeg = Ffmpeg_end,
         output_left = False, timer = During_download, stream_end = False\<rparr>
        \<lparr>body_videoId = Some ''dQw4w9WgXcQ'', body_pitchShift = None, body_playbackSpeed = None\<rparr>
        (new_request {}))
     = [CallDownload ''https://www.youtube.com/watch?v=dQw4w9WgXcQ'' ''temp/s1_input.webm'',
        Respond (ErrorJson 408 ''Processing timeout'')]
   \<and> responses (process_audio digits_to_number
        \<lparr>sessionId = ''s1'', download = Download_timer, input_left = True, ffmpeg = Ffmpeg_end,
         output_left = False, timer = During_download, stream_end = False\<rparr>
        \<lparr>body_videoId = Some ''dQw4w9WgXcQ'', body_pitchShift = None, body_playbackSpeed = None\<rparr>
        (new_request {})) \<le> 1"
  using at_most_one_response[of digits_to_number
        "\<lparr>sessionId = ''s1'', download = Download_timer, input_left = True, ffmpeg = Ffmpeg_end,
         output_left = False, timer = During_download, stream_end = False\<rparr>"
        "\<lparr>body_videoId = Some ''dQw4w9WgXcQ'', body_pitchShift = None, body_playbackSpeed = None\<rparr>" "{}"]
  by (simp add: process_audio_def regex_test_def id_alphabet_def js_lt_def js_gt_def
      pipeline_def Let_def call_def written_def respond_def new_request_def requestTimeout_fires_def
      catch_block_def delete_pair_def unlink_if_exists_def
      videoUrl_def inputFile_def outputFile_def tempDir_def)

subsection \<open>POST /api/process-audio: non-numeric parameters\<close>

lemma no400_call: "is_call e \<Longrightarrow> no400 (call e s) = no400 s"
  by (cases e) (simp_all add: no400_def call_def)

lemma no400_written: "no400 (written present file s) = no400 s"
  by (simp add: no400_def written_def)

lemma no400_respond: "status r \<noteq> 400 \<Longrightarrow> no400 (respond r s) = no400 s"
  by (simp add: no400_def respond_def)

lemma no400_timeout: "no400 (requestTimeout_fires s) = no400 s"
  by (simp add: requestTimeout_fires_def no400_respond)

lemma no400_delete_pair: "no400 (delete_pair i out s) = no400 s"
  by (simp add: no400_def delete_pair_fields)

lemma no400_catch: "no400 (catch_block i out message s) = no400 s"
  by (simp add: catch_block_def Let_def no400_respond no400_delete_pair)

lemma no400_pipeline: "no400 (pipeline env videoId s) = no400 s"
  by (simp add: pipeline_def Let_def no400_call no400_written no400_timeout no400_catch no400_respond
      no400_delete_pair split: option.split)

text \<open>Every step of the pipeline only appends to the record of events.\<close>

lemma events_timeout: "\<exists>xs. events (requestTimeout_fires s) = events s @ xs"
  by (simp add: requestTimeout_fires_def respond_def)

lemma events_catch: "\<exists>xs. events (catch_block i out message s) = events s @ xs"
  by (simp add: catch_block_def Let_def respond_def delete_pair_fields)

lemma events_written: "events (written present file s) = events s"
  by (simp add: written_def)

lemma pipeline_starts_with_download:
  "\<exists>xs. events (pipeline env videoId s)
        = events s @ CallDownload (videoUrl videoId) (inputFile (sessionId env)) # xs"
proof -
  let ?inp = "inputFile (sessionId env)" and ?out = "outputFile (sessionId env)"
  define s2 where "s2 = written (download env = Write_finish \<or> input_left env) ?inp
      (call (CallDownload (videoUrl videoId) ?inp) s)"
  define s3 where "s3 = (if timer env = During_download then requestTimeout_fires s2 else s2)"
  have e2: "events s2 = events s @ [CallDownload (videoUrl videoId) ?inp]"
    by (simp add: s2_def events_written call_def)
  have "\<exists>xs. events s3 = events s2 @ xs"
    using events_timeout[of s2] by (cases "timer env = During_download") (simp_all add: s3_def)
  then obtain xs3 where e3: "events s3 = events s2 @ xs3" by blast
  show ?thesis
  proof (cases "downloadYouTubeAudio (download env)")
    case (Some message)
    then have "pipeline env videoId s = catch_block ?inp ?out message s3"
      by (simp add: pipeline_def Let_def s3_def s2_def)
    with events_catch[of ?inp ?out message s3] e3 e2 show ?thesis by auto
  next
    case None
    define s5 where "s5 = written (ffmpeg env = Ffmpeg_end \<or> output_left env) ?out
        (call (CallTranscode ?inp ?out) s3)"
    define s6 where "s6 = (if timer env = During_transcode then requestTimeout_fires s5 else s5)"
    have e5: "events s5 = events s3 @ [CallTranscode ?inp ?out]"
      by (simp add: s5_def events_written call_def)
    have "\<exists>xs. events s6 = events s5 @ xs"
      using events_timeout[of s5] by (cases "timer env = During_transcode") (simp_all add: s6_def)
    then obtain xs6 where e6: "events s6 = events s5 @ xs6" by blast
    have "\<exists>xs. events (pipeline env videoId s) = events s6 @ xs"
      using None events_catch[of ?inp ?out _ s6]
      by (auto simp: pipeline_def Let_def s3_def s2_def s5_def s6_def respond_def delete_pair_fields
          split: option.split)
    with e6 e5 e3 e2 show ?thesis by auto
  qed
qed

lemma validation_passes_on_NaN:
  assumes "body_videoId b = Some videoId" and "regex_test videoId"
    and "body_pitchShift b = Some (JStr str) \<and> body_playbackSpeed b = None
       \<or> body_pitchShift b = None \<and> body_playbackSpeed b = Some (JStr str)"
    and "str2num str = None"
  shows "process_audio str2num env b s = pipeline env videoId s"
  using assms regex_test_nonempty[OF assms(2)]
  by (auto simp: process_audio_def Let_def js_lt_def js_gt_def)

text \<open>
  Claim C10. When \<open>pitchShift\<close> or \<open>playbackSpeed\<close> is a string whose numeric conversion is
  \<open>NaN\<close> (the other one missing) and the id is well formed, both range comparisons on the
  string are false, validation passes, and the request runs the pipeline: its first event
  is the download into the session's input file, and no response of the run has status 400.
\<close>

theorem non_numeric_parameter_passes_validation:
  assumes "body_videoId b = Some videoId" and "regex_test videoId"
    and "body_pitchShift b = Some (JStr str) \<and> body_playbackSpeed b = None
       \<or> body_pitchShift b = None \<and> body_playbackSpeed b = Some (JStr str)"
    and "str2num str = None"
  shows "\<not> js_lt str2num (JStr str) lo \<and> \<not> js_gt str2num (JStr str) hi
       \<and> process_audio str2num env b (new_request disk) = pipeline env videoId (new_request disk)
       \<and> hd (events (process_audio str2num env b (new_request disk)))
            = CallDownload (videoUrl videoId) (inputFile (sessionId env))
       \<and> no400 (process_audio str2num env b (new_request disk))"
proof -
  have cmp: "\<not> js_lt str2num (JStr str) lo \<and> \<not> js_gt str2num (JStr str) hi"
    using assms(4) by (simp add: js_lt_def js_gt_def)
  have hd: "hd (events (pipeline env videoId (new_request disk)))
      = CallDownload (videoUrl videoId) (inputFile (sessionId env))"
    using pipeline_starts_with_download[of env videoId "new_request disk"]
    by (auto simp: new_request_def)
  have n: "no400 (pipeline env videoId (new_request disk))"
    by (simp add: no400_pipeline) (simp add: no400_def new_request_def)
  have "process_audio str2num env b (new_request disk) = pipeline env videoId (new_request disk)"
    using assms by (rule validation_passes_on_NaN)
  then show ?thesis using cmp hd n by simp
qed

theorem non_numeric_parameter_passes_validation_witness:
  "regex_test ''dQw4w9WgXcQ'' \<and> digits_to_number ''abc'' = None
   \<and> events (process_audio digits_to_number
        \<lparr>sessionId = ''s1'', download = Write_finish, input_left = False, ffmpeg = Ffmpeg_error ''Invalid argument'',
         output_left = False, timer = Cleared, stream_end = False\<rparr>
        \<lparr>body_videoId = Some ''dQw4w9WgXcQ'', body_pitchShift = Some (JStr ''abc''), body_playbackSpeed = None\<rparr>
        (new_request {}))
     = [CallDownload ''https://www.youtube.com/watch?v=dQw4w9WgXcQ'' ''temp/s1_input.webm'',
        CallTranscode ''temp/s1_input.webm'' ''temp/s1_output.mp3'',
        Respond (ErrorJson 500 ''Failed to process audio'')]"
proof -
  have a: "regex_test ''dQw4w9WgXcQ''" by (simp add: regex_test_def id_alphabet_def)
  have b: "digits_to_number ''abc'' = None" by (simp add: digits_to_number_def digit_of_def)
  let ?env = "\<lparr>sessionId = ''s1'', download = Write_finish, input_left = False, ffmpeg = Ffmpeg_error ''Invalid argument'',
         output_left = False, timer = Cleared, stream_end = False\<rparr>"
  let ?b = "\<lparr>body_videoId = Some ''dQw4w9WgXcQ'', body_pitchShift = Some (JStr ''abc''), body_playbackSpeed = None\<rparr>"
  have "process_audio digits_to_number ?env ?b (new_request {}) = pipeline ?env ''dQw4w9WgXcQ'' (new_request {})"
    using non_numeric_parameter_passes_validation[where b = ?b and videoId = "''dQw4w9WgXcQ''" and str = "''abc''"
        and ?str2num = digits_to_number and env = ?env and disk = "{}"] a b by simp
  then show ?thesis using a b
    by (simp add: pipeline_def Let_def call_def written_def catch_block_def delete_pair_def
        unlink_if_exists_def respond_def new_request_def videoUrl_def inputFile_def outputFile_def tempDir_def)
qed

subsection \<open>POST /api/process-audio: the temp files\<close>

lemma files_delete_pair: "files (delete_pair i out s) = files s - {i, out}"
  by (auto simp: delete_pair_def unlink_if_exists_def)

lemma files_respond: "files (respond r s) = files s"
  by (simp add: respond_def)

lemma files_catch: "files (catch_block i out message s) = files s - {i, out}"
  by (simp add: catch_block_def Let_def files_respond files_delete_pair)

lemma files_timeout: "files (requestTimeout_fires s) = files s"
  by (simp add: requestTimeout_fires_def files_respond)

lemma headersSent_after_timeout: "headersSent (requestTimeout_fires s)"
  by (simp add: requestTimeout_fires_def respond_def)

lemma download_resolves_iff: "downloadYouTubeAudio d = None \<longleftrightarrow> d = Write_finish"
  by (cases d) simp_all

lemma ffmpeg_resolves_iff: "processAudioWithFFmpeg f = None \<longleftrightarrow> f = Ffmpeg_end"
  by (cases f) simp_all

text \<open>
  The temp files of a run are still on disk at its end in one case only: the download and
  the transcoder succeeded, the timer was cleared, and the read stream never emitted \<open>end\<close>.
\<close>

lemma temp_files_left_iff:
  fixes env videoId disk
  defines "final \<equiv> pipeline env videoId (new_request disk)"
  defines "leak \<equiv> download env = Write_finish \<and> ffmpeg env = Ffmpeg_end \<and> timer env = Cleared
                   \<and> \<not> stream_end env"
  shows "inputFile (sessionId env) \<in> files final \<longleftrightarrow> leak"
    and "outputFile (sessionId env) \<in> files final \<longleftrightarrow> leak"
proof -
  let ?inp = "inputFile (sessionId env)" and ?out = "outputFile (sessionId env)"
  have both: "(?inp \<in> files final \<longleftrightarrow> leak) \<and> (?out \<in> files final \<longleftrightarrow> leak)"
  proof (cases "downloadYouTubeAudio (download env)")
    case (Some message)
    then have "download env \<noteq> Write_finish" by (auto simp: download_resolves_iff[symmetric])
    moreover have "?inp \<notin> files final \<and> ?out \<notin> files final"
      using Some by (simp add: final_def pipeline_def Let_def files_catch)
    ultimately show ?thesis by (simp add: leak_def)
  next
    case None
    then have d: "download env = Write_finish" by (simp add: download_resolves_iff)
    show ?thesis
    proof (cases "processAudioWithFFmpeg (ffmpeg env)")
      case (Some message)
      then have "ffmpeg env \<noteq> Ffmpeg_end" by (auto simp: ffmpeg_resolves_iff[symmetric])
      moreover have "?inp \<notin> files final \<and> ?out \<notin> files final"
        using None Some by (simp add: final_def pipeline_def Let_def files_catch)
      ultimately show ?thesis by (simp add: leak_def)
    next
      case None2: None
      then have f: "ffmpeg env = Ffmpeg_end" by (simp add: ffmpeg_resolves_iff)
      show ?thesis
      proof (cases "timer env")
        case Cleared
        then show ?thesis using d f None None2
          by (simp add: leak_def final_def pipeline_def Let_def call_def written_def new_request_def
              files_respond files_delete_pair respond_def)
      next
        case During_download
        then show ?thesis using d f None None2
          by (simp add: leak_def final_def pipeline_def Let_def call_def written_def
              headersSent_after_timeout files_catch)
      next
        case During_transcode
        then show ?thesis using d f None None2
          by (simp add: leak_def final_def pipeline_def Let_def 
              headersSent_after_timeout files_catch)
      qed
    qed
  qed
  from both show "?inp \<in> files final \<longleftrightarrow> leak" "?out \<in> files final \<longleftrightarrow> leak" by simp_all
qed

text \<open>
  Claim C3 does not hold of the code. The success path deletes the two temp files only in
  the handler of the read stream's \<open>end\<close> event; when the stream never ends (it fails, or the
  client goes away), nothing deletes them. Here the download and the transcoder succeed, the
  audio response starts, \<open>end\<close> never comes, and both files are still on disk at the end of
  the run.
\<close>

theorem stream_without_end_leaves_temp_files:
  "inputFile ''s1'' \<in> files (process_audio digits_to_number
        \<lparr>sessionId = ''s1'', download = Write_finish, input_left = False, ffmpeg = Ffmpeg_end,
         output_left = False, timer = Cleared, stream_end = False\<rparr>
        \<lparr>body_videoId = Some ''dQw4w9WgXcQ'', body_pitchShift = None, body_playbackSpeed = None\<rparr>
        (new_request {}))
   \<and> outputFile ''s1'' \<in> files (process_audio digits_to_number
        \<lparr>sessionId = ''s1'', download = Write_finish, input_left = False, ffmpeg = Ffmpeg_end,
         output_left = False, timer = Cleared, stream_end = False\<rparr>
        \<lparr>body_videoId = Some ''dQw4w9WgXcQ'', body_pitchShift = None, body_playbackSpeed = None\<rparr>
        (new_request {}))
   \<and> events (process_audio digits_to_number
        \<lparr>sessionId = ''s1'', download = Write_finish, input_left = False, ffmpeg = Ffmpeg_end,
         output_left = False, timer = Cleared, stream_end = False\<rparr>
        \<lparr>body_videoId = Some ''dQw4w9WgXcQ'', body_pitchShift = None, body_playbackSpeed = None\<rparr>
        (new_request {}))
     = [CallDownload ''https://www.youtube.com/watch?v=dQw4w9WgXcQ'' ''temp/s1_input.webm'',
        CallTranscode ''temp/s1_input.webm'' ''temp/s1_output.mp3'',
        Respond (AudioStream ''temp/s1_output.mp3'')]"
  by (simp add: process_audio_def regex_test_def id_alphabet_def js_lt_def js_gt_def
      pipeline_def Let_def call_def written_def respond_def new_request_def
      videoUrl_def inputFile_def outputFile_def tempDir_def)

end
